theory Spec2Isabelle
  imports Main "HOL-Library.Word"
begin

unbundle bit_operations_syntax

section \<open>Common data: bytes, strings, errors\<close>

text \<open>
  A Go \<^verbatim>\<open>byte\<close> is an 8-bit word and a \<^verbatim>\<open>[]byte\<close> a list of them.  A Go
  \<^verbatim>\<open>string\<close> is a sequence of bytes as well; it is modelled by the HOL type
  \<open>string\<close>, whose characters are 8-bit.  The conversions \<^verbatim>\<open>[]byte(s)\<close> and
  \<^verbatim>\<open>string(bs)\<close> keep every byte.
\<close>

type_synonym byte = "8 word"

definition bytes_of_string :: "string \<Rightarrow> byte list" where
  "bytes_of_string s = map of_char s"

definition string_of_bytes :: "byte list \<Rightarrow> string" where
  "string_of_bytes bs = map (\<lambda>b. char_of (unat b)) bs"

text \<open>
  A Go \<^verbatim>\<open>error\<close> built by \<^verbatim>\<open>fmt.Errorf\<close> carries a message and nothing else, so
  an error value is its message.  A panic is kept apart from a returned error.
\<close>

type_synonym go_error = string

datatype failure = Err go_error | Panic string

section \<open>authDigest and twosComplement (login.go, lines 57--96)\<close>

text \<open>
  \<^verbatim>\<open>twosComplement\<close> walks the slice from its last index down to 0.  The loop
  counter of the model is \<open>i + 1\<close>, so \<open>Suc i\<close> stands for the iteration at index
  \<open>i\<close> and \<open>0\<close> for the exit of the loop.  Every index the loop touches is in range.
\<close>

fun twosComplement_loop :: "byte list \<Rightarrow> nat \<Rightarrow> bool \<Rightarrow> byte list" where
  "twosComplement_loop p 0 carry = p"
| "twosComplement_loop p (Suc i) carry =
     (let p1 = p[i := NOT (p ! i)] in
      if carry then twosComplement_loop (p1[i := p1 ! i + 1]) i (p1 ! i = 0xff)
      else twosComplement_loop p1 i carry)"

definition twosComplement :: "byte list \<Rightarrow> byte list" where
  "twosComplement p = twosComplement_loop p (length p) True"

text \<open>
  \<^verbatim>\<open>fmt.Sprintf("%x", hash)\<close> on a byte slice writes two lowercase hexadecimal
  digits per byte, high nibble first.  \<^verbatim>\<open>strings.TrimLeft(s, cutset)\<close> drops the
  leading characters of \<open>s\<close> that occur in \<open>cutset\<close>.
\<close>

definition ldigits :: string where
  "ldigits = ''0123456789abcdef''"

definition Sprintf_x :: "byte list \<Rightarrow> string" where
  "Sprintf_x bs =
     concat (map (\<lambda>c. [ldigits ! unat (drop_bit 4 c), ldigits ! unat (c AND 0xF)]) bs)"

definition TrimLeft :: "string \<Rightarrow> string \<Rightarrow> string" where
  "TrimLeft s cutset = dropWhile (\<lambda>c. c \<in> set cutset) s"

text \<open>
  The hash function is the standard library's (\<^verbatim>\<open>crypto/sha1\<close>); it is a parameter
  of the model.  The three \<^verbatim>\<open>h.Write\<close> calls feed it the concatenation of their
  arguments, and \<^verbatim>\<open>h.Sum(nil)\<close> is the digest of that concatenation.  SHA-1 digests
  have 20 bytes, so \<^verbatim>\<open>hash[0]\<close> is in range.
\<close>

definition authDigest ::
  "(byte list \<Rightarrow> byte list) \<Rightarrow> string \<Rightarrow> byte list \<Rightarrow> byte list \<Rightarrow> string" where
  "authDigest sha1_Sum serverID sharedSecret publicKey =
     (let hash = sha1_Sum (bytes_of_string serverID @ sharedSecret @ publicKey);
          negative = ((hash ! 0) AND 0x80 = 0x80);
          hash = (if negative then twosComplement hash else hash);
          res = TrimLeft (Sprintf_x hash) ''0''
      in if negative then ''-'' @ res else res)"

subsection \<open>The signed-hex encoding, as the specification words it\<close>

text \<open>
  The digest read as a big-endian number, and as a signed (two's-complement) big-endian
  number whose sign is the high bit of the first byte.
\<close>

fun le_nat :: "byte list \<Rightarrow> nat" where
  "le_nat [] = 0"
| "le_nat (b # bs) = unat b + 256 * le_nat bs"

definition be_nat :: "byte list \<Rightarrow> nat" where
  "be_nat bs = le_nat (rev bs)"

definition be_sint :: "byte list \<Rightarrow> int" where
  "be_sint bs =
     (if 2 * be_nat bs < 256 ^ length bs then int (be_nat bs)
      else int (be_nat bs) - 256 ^ length bs)"

text \<open>
  Lowercase hexadecimal without leading zero digits; zero is the empty string.  A
  negative number is a minus sign followed by the digits of its magnitude.
\<close>

fun hex_nat :: "nat \<Rightarrow> string" where
  "hex_nat n = (if n = 0 then [] else hex_nat (n div 16) @ [ldigits ! (n mod 16)])"

declare hex_nat.simps [simp del]

definition signed_hex :: "int \<Rightarrow> string" where
  "signed_hex i = (if i < 0 then ''-'' @ hex_nat (nat (- i)) else hex_nat (nat i))"

section \<open>Packets and the packet codec\<close>

text \<open>
  \<^verbatim>\<open>pk.Packet\<close> as \<^verbatim>\<open>login.go\<close> uses it: an opcode and a payload.
\<close>

record Packet =
  ID :: byte
  Data :: "byte list"

text \<open>
  The functions of package \<^verbatim>\<open>pk\<close> that \<^verbatim>\<open>login.go\<close> calls are not part of the
  sources.  They are parameters of the model, collected in one record that stands for
  the package.  A reader (\<^verbatim>\<open>bytes.Reader\<close>) is the list of bytes not yet read; a
  decoder returns an error, or the decoded value with the rest of the reader.
  \<^verbatim>\<open>login.go\<close> converts the result of \<^verbatim>\<open>UnpackVarInt\<close> with \<^verbatim>\<open>int(...)\<close> and the
  argument of \<^verbatim>\<open>PackVarInt\<close> with \<^verbatim>\<open>int32(...)\<close>: a VarInt is a signed 32-bit
  integer.
\<close>

type_synonym reader = "byte list"

record pk_codec =
  UnpackString :: "reader \<Rightarrow> go_error + (string \<times> reader)"
  UnpackVarInt :: "reader \<Rightarrow> go_error + (32 word \<times> reader)"
  ReadNBytes :: "reader \<Rightarrow> int \<Rightarrow> go_error + (byte list \<times> reader)"
  PackVarInt :: "32 word \<Rightarrow> byte list"
  PackString :: "string \<Rightarrow> byte list"
  PackUint16 :: "16 word \<Rightarrow> byte list"

section \<open>unpackEncryptionRequest (login.go, lines 20--55)\<close>

record encryptionRequest =
  ServerID :: string
  PublicKey :: "byte list"
  VerifyToken :: "byte list"

definition unpackEncryptionRequest :: "pk_codec \<Rightarrow> Packet \<Rightarrow> go_error + encryptionRequest" where
  "unpackEncryptionRequest pk p =
     (let r = Data p in
      case UnpackString pk r of
        Inl err \<Rightarrow> Inl err
      | Inr (serverID, r) \<Rightarrow>
      (case UnpackVarInt pk r of
        Inl err \<Rightarrow> Inl err
      | Inr (publicKeyLength, r) \<Rightarrow>
      (case ReadNBytes pk r (sint publicKeyLength) of
        Inl err \<Rightarrow> Inl err
      | Inr (publicKey, r) \<Rightarrow>
      (case UnpackVarInt pk r of
        Inl err \<Rightarrow> Inl err
      | Inr (verifyTokenLength, r) \<Rightarrow>
      (case ReadNBytes pk r (sint verifyTokenLength) of
        Inl err \<Rightarrow> Inl err
      | Inr (verifyToken, r) \<Rightarrow>
          Inr \<lparr>ServerID = serverID, PublicKey = publicKey, VerifyToken = verifyToken\<rparr>)))))"

section \<open>loginAuth (login.go, lines 98--145)\<close>

record profile =
  profile_ID :: string
  profile_Name :: string

record request =
  AccessToken :: string
  SelectedProfile :: profile
  request_ServerID :: string

text \<open>
  \<^verbatim>\<open>json.Marshal\<close> walks the struct in the order of its fields and names each member
  by its \<^verbatim>\<open>json:"..."\<close> tag.  The tree it serialises is built here; writing the tree
  out as text is the standard library's part and a parameter of \<open>loginAuth\<close>.
\<close>

datatype json = JString string | JObject "(string \<times> json) list"

definition profile_json :: "profile \<Rightarrow> json" where
  "profile_json p = JObject [(''id'', JString (profile_ID p)), (''name'', JString (profile_Name p))]"

definition request_json :: "request \<Rightarrow> json" where
  "request_json r =
     JObject [(''accessToken'', JString (AccessToken r)),
              (''selectedProfile'', profile_json (SelectedProfile r)),
              (''serverId'', JString (request_ServerID r))]"

text \<open>
  An HTTP request as \<^verbatim>\<open>http.NewRequest\<close> returns it: method, URL, an empty header map
  and the body.  \<^verbatim>\<open>NewRequest\<close> fails on a method or URL it cannot parse; whether it
  does is the parameter \<open>NewRequest_error\<close>.  \<^verbatim>\<open>Header.Set\<close> replaces the values stored
  under a key by the one given (both keys \<^verbatim>\<open>login.go\<close> sets are in canonical form
  already).
\<close>

record http_request =
  Method :: string
  URL :: string
  Header :: "string \<rightharpoonup> string list"
  Body :: "byte list"

definition http_NewRequest ::
  "(string \<Rightarrow> string \<Rightarrow> go_error option) \<Rightarrow> string \<Rightarrow> string \<Rightarrow> byte list
     \<Rightarrow> go_error + http_request" where
  "http_NewRequest NewRequest_error method url body =
     (case NewRequest_error method url of
        Some err \<Rightarrow> Inl err
      | None \<Rightarrow> Inr \<lparr>Method = method, URL = url, Header = Map.empty, Body = body\<rparr>)"

definition Header_Set :: "http_request \<Rightarrow> string \<Rightarrow> string \<Rightarrow> http_request" where
  "Header_Set req key v = req\<lparr>Header := (Header req)(key \<mapsto> [v])\<rparr>"

text \<open>
  An HTTP response: the status line text (\<^verbatim>\<open>resp.Status\<close>, e.g. \<^verbatim>\<open>"200 OK"\<close>), the
  numeric code (\<^verbatim>\<open>resp.StatusCode\<close>) and what \<^verbatim>\<open>ioutil.ReadAll(resp.Body)\<close> returns:
  the bytes read and the error that ended the read, if any.
\<close>

record http_response =
  Status :: string
  StatusCode :: int
  BodyRead :: "byte list \<times> go_error option"

text \<open>
  \<open>loginAuth\<close> returns the list of requests it handed to \<^verbatim>\<open>client.Do\<close> (its effect on
  the network) and the error it returns (\<open>None\<close> for \<^verbatim>\<open>nil\<close>).  The error
  \<^verbatim>\<open>ioutil.ReadAll\<close> returns is discarded, as in the source.
\<close>

definition loginAuth ::
  "(byte list \<Rightarrow> byte list) \<Rightarrow> (json \<Rightarrow> go_error + byte list)
     \<Rightarrow> (string \<Rightarrow> string \<Rightarrow> go_error option) \<Rightarrow> (http_request \<Rightarrow> go_error + http_response)
     \<Rightarrow> string \<Rightarrow> string \<Rightarrow> string \<Rightarrow> byte list \<Rightarrow> encryptionRequest
     \<Rightarrow> http_request list \<times> go_error option" where
  "loginAuth sha1_Sum json_Marshal NewRequest_error client_Do AsTk name UUID shareSecret er =
     (let digest = authDigest sha1_Sum (ServerID er) shareSecret (PublicKey er) in
      case json_Marshal (request_json
             \<lparr>AccessToken = AsTk,
              SelectedProfile = \<lparr>profile_ID = UUID, profile_Name = name\<rparr>,
              request_ServerID = digest\<rparr>) of
        Inl err \<Rightarrow> ([], Some (''create request packet to authenticate faile: '' @ err))
      | Inr requestPacket \<Rightarrow>
      (case http_NewRequest NewRequest_error ''POST''
              ''https://sessionserver.mojang.com/session/minecraft/join'' requestPacket of
        Inl err \<Rightarrow> ([], Some (''make request error: '' @ err))
      | Inr PostRequest \<Rightarrow>
      (let PostRequest = Header_Set PostRequest ''User-Agent'' ''gomcbot'';
           PostRequest = Header_Set PostRequest ''Connection'' ''keep-alive''
       in case client_Do PostRequest of
        Inl err \<Rightarrow> ([PostRequest], Some (''post fail: '' @ err))
      | Inr resp \<Rightarrow>
      (let body = fst (BodyRead resp) in
       if Status resp \<noteq> ''204 No Content''
       then ([PostRequest], Some (''auth fail: '' @ string_of_bytes body))
       else ([PostRequest], None)))))"

section \<open>newSymmetricEncryption (login.go, lines 147--159)\<close>

text \<open>
  \<^verbatim>\<open>rand.Read(key)\<close> overwrites a prefix of the buffer with the bytes the random source
  delivers and reports how many it wrote and an error; the buffer keeps its length.  The
  source is a state threaded through the model: \<open>rand_Read rand n\<close> is asked for \<open>n\<close>
  bytes and answers with the bytes it could deliver, an optional error and the next
  state.
\<close>

definition read_into :: "byte list \<Rightarrow> byte list \<Rightarrow> byte list" where
  "read_into buf got = take (length buf) got @ drop (length got) buf"

text \<open>
  \<^verbatim>\<open>aes.NewCipher\<close> accepts keys of 16, 24 or 32 bytes and returns an error for any other
  length.  The block it returns is identified by its key; encrypting one block under a
  key is the standard library's part and a parameter where it is needed.
\<close>

datatype cipher_Block = AES "byte list"

definition aes_NewCipher :: "byte list \<Rightarrow> go_error + cipher_Block" where
  "aes_NewCipher key =
     (if length key = 16 \<or> length key = 24 \<or> length key = 32 then Inr (AES key)
      else Inl ''crypto/aes: invalid key size'')"

text \<open>
  Modelled from the spec: package \<^verbatim>\<open>CFB8\<close> (\<^verbatim>\<open>NewCFB8Encrypt\<close>, \<^verbatim>\<open>NewCFB8Decrypt\<close> and
  the \<^verbatim>\<open>XORKeyStream\<close> method of the streams they return) is not part of the sources.
  The specification describes it as the block cipher wrapped in 8-bit cipher-feedback
  mode, once configured for encryption and once for decryption, started from the given
  initialization vector; the two streams are independent and stateful, and each byte
  encrypted or decrypted advances that stream's feedback register.  The specification
  names the mode and leaves the byte step to its standard definition: the key stream
  byte is the first byte of the encrypted register, and the register is shifted by one
  byte with the ciphertext byte entering at the end.
\<close>

record CFB8_stream =
  stream_block :: cipher_Block
  stream_register :: "byte list"
  stream_decrypt :: bool

definition NewCFB8Encrypt :: "cipher_Block \<Rightarrow> byte list \<Rightarrow> CFB8_stream" where
  "NewCFB8Encrypt b iv = \<lparr>stream_block = b, stream_register = iv, stream_decrypt = False\<rparr>"

definition NewCFB8Decrypt :: "cipher_Block \<Rightarrow> byte list \<Rightarrow> CFB8_stream" where
  "NewCFB8Decrypt b iv = \<lparr>stream_block = b, stream_register = iv, stream_decrypt = True\<rparr>"

fun XORKeyStream ::
  "(cipher_Block \<Rightarrow> byte list \<Rightarrow> byte list) \<Rightarrow> CFB8_stream \<Rightarrow> byte list
     \<Rightarrow> byte list \<times> CFB8_stream" where
  "XORKeyStream Encrypt s [] = ([], s)"
| "XORKeyStream Encrypt s (x # src) =
     (let y = x XOR (Encrypt (stream_block s) (stream_register s) ! 0);
          fed = (if stream_decrypt s then x else y);
          s1 = s\<lparr>stream_register := tl (stream_register s) @ [fed]\<rparr>;
          (dst, s2) = XORKeyStream Encrypt s1 src
      in (y # dst, s2))"

text \<open>
  \<open>newSymmetricEncryption\<close> returns the key and the two streams, or panics where the
  source does; the second component is the state of the random source afterwards.  The
  results of \<^verbatim>\<open>rand.Read\<close> (count and error) are discarded, as in the source.
\<close>

definition newSymmetricEncryption ::
  "('rng \<Rightarrow> nat \<Rightarrow> (byte list \<times> go_error option) \<times> 'rng) \<Rightarrow> 'rng
     \<Rightarrow> (failure + byte list \<times> CFB8_stream \<times> CFB8_stream) \<times> 'rng" where
  "newSymmetricEncryption rand_Read rand =
     (let key = replicate 16 0;
          (got, rand) = rand_Read rand (length key);
          key = read_into key (fst got)
      in case aes_NewCipher key of
           Inl err \<Rightarrow> (Inl (Panic err), rand)
         | Inr b \<Rightarrow>
             (let decoStream = NewCFB8Decrypt b key;
                  encoStream = NewCFB8Encrypt b key
              in (Inr (key, encoStream, decoStream), rand)))"

section \<open>genEncryptionKeyResponse (login.go, lines 161--189)\<close>

text \<open>
  \<^verbatim>\<open>x509.ParsePKIXPublicKey\<close> returns an error or a key of one of several dynamic types
  (\<^verbatim>\<open>*rsa.PublicKey\<close>, \<^verbatim>\<open>*dsa.PublicKey\<close>, \<^verbatim>\<open>*ecdsa.PublicKey\<close>, \<^verbatim>\<open>ed25519.PublicKey\<close>,
  \<^verbatim>\<open>*ecdh.PublicKey\<close>).  The parser and \<^verbatim>\<open>rsa.EncryptPKCS1v15\<close> are the standard
  library's and parameters of the model; the encryption draws its padding from
  \<^verbatim>\<open>rand.Reader\<close>, whose state is threaded through.  The type assertion
  \<^verbatim>\<open>iPK.(*rsa.PublicKey)\<close> has the one-result form, which panics on any other dynamic
  type.
\<close>

record rsa_PublicKey =
  rsa_N :: nat
  rsa_E :: nat

datatype crypto_PublicKey =
  RSA rsa_PublicKey | DSA | ECDSA | Ed25519 | ECDH

definition genEncryptionKeyResponse ::
  "pk_codec \<Rightarrow> (byte list \<Rightarrow> go_error + crypto_PublicKey)
     \<Rightarrow> ('rng \<Rightarrow> rsa_PublicKey \<Rightarrow> byte list \<Rightarrow> (go_error + byte list) \<times> 'rng) \<Rightarrow> 'rng
     \<Rightarrow> byte list \<Rightarrow> byte list \<Rightarrow> byte list \<Rightarrow> (failure + Packet) \<times> 'rng" where
  "genEncryptionKeyResponse pk ParsePKIXPublicKey EncryptPKCS1v15 rand
       shareSecret publicKey verifyToken =
     (case ParsePKIXPublicKey publicKey of
        Inl err \<Rightarrow> (Inl (Err (''decode public key fail: '' @ err)), rand)
      | Inr iPK \<Rightarrow>
      (case iPK of
        RSA rsaKey \<Rightarrow>
          (case EncryptPKCS1v15 rand rsaKey shareSecret of
             (Inl err, rand) \<Rightarrow> (Inl (Err (''encryption share secret fail: '' @ err)), rand)
           | (Inr cryptPK, rand) \<Rightarrow>
          (case EncryptPKCS1v15 rand rsaKey verifyToken of
             (Inl err, rand) \<Rightarrow> (Inl (Err (''encryption verfy tokenfail: '' @ err)), rand)
           | (Inr verifyT, rand) \<Rightarrow>
               (Inr \<lparr>ID = 0x01,
                     Data = PackVarInt pk (of_nat (length cryptPK)) @ cryptPK @
                            PackVarInt pk (of_nat (length verifyT)) @ verifyT\<rparr>, rand)))
      | _ \<Rightarrow> (Inl (Panic ''interface conversion: interface {} is not *rsa.PublicKey''), rand)))"

section \<open>newHandshakePacket and newLoginStartPacket (login.go, lines 191--214)\<close>

text \<open>
  A Go \<^verbatim>\<open>int\<close> is modelled by \<open>int\<close>; the conversions \<^verbatim>\<open>int32(protocolVersion)\<close> and
  \<^verbatim>\<open>uint16(port)\<close> keep the low 32 and 16 bits.
\<close>

definition newHandshakePacket :: "pk_codec \<Rightarrow> int \<Rightarrow> string \<Rightarrow> int \<Rightarrow> byte \<Rightarrow> Packet" where
  "newHandshakePacket pk protocolVersion addr port nextState =
     (let hsData = [];
          hsData = hsData @ PackVarInt pk (word_of_int protocolVersion);
          hsData = hsData @ PackString pk addr;
          hsData = hsData @ PackUint16 pk (word_of_int port);
          hsData = hsData @ [nextState]
      in \<lparr>ID = 0, Data = hsData\<rparr>)"

definition newLoginStartPacket :: "pk_codec \<Rightarrow> string \<Rightarrow> Packet" where
  "newLoginStartPacket pk userName =
     (let data = [];
          data = data @ PackString pk userName
      in \<lparr>ID = 0, Data = data\<rparr>)"

section \<open>A reference packet codec\<close>

text \<open>
  Modelled from the spec: the packet codec (package \<^verbatim>\<open>pk\<close>: \<^verbatim>\<open>UnpackString\<close>,
  \<^verbatim>\<open>UnpackVarInt\<close>, \<^verbatim>\<open>ReadNBytes\<close>, \<^verbatim>\<open>PackVarInt\<close>, \<^verbatim>\<open>PackString\<close>, \<^verbatim>\<open>PackUint16\<close>) is
  not part of the sources.  The specification describes it as encoding and decoding
  variable-length integers, length-prefixed strings (UTF-8) and byte sequences, and
  fixed-width big-endian integers, and as failing when a declared length exceeds the
  remaining buffer or a string is not valid UTF-8.  The variable-length integer is the
  wire protocol's: seven bits per byte, least significant group first, the high bit set
  on every byte but the last, at most five bytes.  This codec instantiates the
  parameter \<open>pk\<close> where a concrete one is needed; the properties of the functions of
  \<^verbatim>\<open>login.go\<close> are stated for every codec.
\<close>

definition ReadNBytes_ref :: "reader \<Rightarrow> int \<Rightarrow> go_error + (byte list \<times> reader)" where
  "ReadNBytes_ref r n =
     (if n < 0 \<or> int (length r) < n then Inl ''EOF''
      else Inr (take (nat n) r, drop (nat n) r))"

fun UnpackVarInt_from :: "nat \<Rightarrow> 32 word \<Rightarrow> reader \<Rightarrow> go_error + (32 word \<times> reader)" where
  "UnpackVarInt_from i n [] = Inl ''EOF''"
| "UnpackVarInt_from i n (sec # r) =
     (let n = n OR push_bit (7 * i) (ucast (sec AND 0x7F)) in
      if sec AND 0x80 = 0 then Inr (n, r)
      else if 4 \<le> i then Inl ''VarInt is too big''
      else UnpackVarInt_from (Suc i) n r)"

definition UnpackVarInt_ref :: "reader \<Rightarrow> go_error + (32 word \<times> reader)" where
  "UnpackVarInt_ref r = UnpackVarInt_from 0 0 r"

function PackVarInt_ref :: "32 word \<Rightarrow> byte list" where
  "PackVarInt_ref num =
     (if drop_bit 7 num = 0 then [ucast (num AND 0x7F)]
      else ucast (num AND 0x7F OR 0x80) # PackVarInt_ref (drop_bit 7 num))"
  by pat_completeness auto
termination
proof (relation "measure unat")
  show "wf (measure unat)" by simp
next
  fix num :: "32 word"
  assume "drop_bit 7 num \<noteq> 0"
  then have "unat (drop_bit 7 num) \<noteq> 0" by (simp add: unat_eq_0)
  then have "unat num div 128 \<noteq> 0" by (simp add: unat_drop_bit_eq drop_bit_eq_div unat_div)
  then have "unat num div 128 < unat num" by simp
  then show "(drop_bit 7 num, num) \<in> measure unat"
    by (simp add: unat_drop_bit_eq drop_bit_eq_div unat_div)
qed

fun valid_utf8 :: "byte list \<Rightarrow> bool" where
  "valid_utf8 [] = True"
| "valid_utf8 (b0 # bs) =
     (if b0 < 0x80 then valid_utf8 bs
      else if 0xC2 \<le> b0 \<and> b0 \<le> 0xDF then
        (case bs of b1 # r \<Rightarrow> 0x80 \<le> b1 \<and> b1 \<le> 0xBF \<and> valid_utf8 r | _ \<Rightarrow> False)
      else if 0xE0 \<le> b0 \<and> b0 \<le> 0xEF then
        (case bs of b1 # b2 # r \<Rightarrow>
           (if b0 = 0xE0 then 0xA0 else 0x80) \<le> b1 \<and> b1 \<le> (if b0 = 0xED then 0x9F else 0xBF) \<and>
           0x80 \<le> b2 \<and> b2 \<le> 0xBF \<and> valid_utf8 r
         | _ \<Rightarrow> False)
      else if 0xF0 \<le> b0 \<and> b0 \<le> 0xF4 then
        (case bs of b1 # b2 # b3 # r \<Rightarrow>
           (if b0 = 0xF0 then 0x90 else 0x80) \<le> b1 \<and> b1 \<le> (if b0 = 0xF4 then 0x8F else 0xBF) \<and>
           0x80 \<le> b2 \<and> b2 \<le> 0xBF \<and> 0x80 \<le> b3 \<and> b3 \<le> 0xBF \<and> valid_utf8 r
         | _ \<Rightarrow> False)
      else False)"

definition UnpackString_ref :: "reader \<Rightarrow> go_error + (string \<times> reader)" where
  "UnpackString_ref r =
     (case UnpackVarInt_ref r of
        Inl err \<Rightarrow> Inl err
      | Inr (l, r) \<Rightarrow>
      (case ReadNBytes_ref r (sint l) of
        Inl err \<Rightarrow> Inl err
      | Inr (bs, r) \<Rightarrow>
          if valid_utf8 bs then Inr (string_of_bytes bs, r) else Inl ''invalid UTF-8''))"

definition PackString_ref :: "string \<Rightarrow> byte list" where
  "PackString_ref s = PackVarInt_ref (of_nat (length (bytes_of_string s))) @ bytes_of_string s"

definition PackUint16_ref :: "16 word \<Rightarrow> byte list" where
  "PackUint16_ref n = [ucast (drop_bit 8 n), ucast n]"

definition pk_ref :: pk_codec where
  "pk_ref = \<lparr>UnpackString = UnpackString_ref, UnpackVarInt = UnpackVarInt_ref,
             ReadNBytes = ReadNBytes_ref, PackVarInt = PackVarInt_ref,
             PackString = PackString_ref, PackUint16 = PackUint16_ref\<rparr>"

section \<open>Auxiliary functions of the proofs\<close>

text \<open>
  The negation loop, read off the reversed (least significant byte first) slice, and
  hexadecimal digits at a fixed width.
\<close>

fun tc_le :: "byte list \<Rightarrow> bool \<Rightarrow> byte list" where
  "tc_le [] c = []"
| "tc_le (b # bs) c =
     (if c then (NOT b + 1) # tc_le bs (NOT b = 0xff) else NOT b # tc_le bs False)"

fun hex_fixed :: "nat \<Rightarrow> nat \<Rightarrow> string" where
  "hex_fixed 0 n = []"
| "hex_fixed (Suc k) n = hex_fixed k (n div 16) @ [ldigits ! (n mod 16)]"

text \<open>
  The SHA-1 digest of the four bytes \<^verbatim>\<open>jeb_\<close>, a published test vector of the
  signed-hex encoding.
\<close>

definition sha1_jeb :: "byte list" where
  "sha1_jeb = [0x83, 0x62, 0xa4, 0xff, 0xbb, 0x3e, 0xcf, 0xef, 0x65, 0xa2,
               0x84, 0xa0, 0x4a, 0x3c, 0xe8, 0x3f, 0xd4, 0xb1, 0xd7, 0x3f]"

section \<open>Properties of authDigest\<close>

subsection \<open>Bytes\<close>

lemma unat_byte_less: "unat (b::byte) < 256"
  using unsigned_less[of b] by simp

lemma and_exp_eq_iff:
  assumes n: "n < LENGTH('a)"
  shows "((w::'a::len word) AND 2 ^ n = 2 ^ n) = bit w n"
proof
  assume "w AND 2 ^ n = 2 ^ n"
  then have "bit (w AND 2 ^ n) n = bit (2 ^ n :: 'a word) n" by simp
  then show "bit w n" using n by (simp add: bit_and_iff bit_exp_iff)
next
  assume b: "bit w n"
  show "w AND 2 ^ n = 2 ^ n"
    by (rule bit_word_eqI) (use b in \<open>auto simp add: bit_and_iff bit_exp_iff\<close>)
qed

lemma high_bit: "((b::byte) AND 0x80 = 0x80) = (128 \<le> unat b)"
proof -
  have e: "(0x80::byte) = 2 ^ 7" by simp
  have "(b AND 0x80 = 0x80) = bit b 7"
    using and_exp_eq_iff[of 7 b] by simp
  also have "bit b 7 = bit (unat b) 7" by (simp add: bit_unsigned_iff)
  also have "\<dots> = odd (unat b div 128)" by (simp add: bit_iff_odd)
  also have "\<dots> = (128 \<le> unat b)"
  proof -
    have "unat b div 128 < 2" using unat_byte_less[of b] by simp
    then have "unat b div 128 = 0 \<or> unat b div 128 = 1" by arith
    then show ?thesis by auto
  qed
  finally show ?thesis .
qed

lemma drop4: "unat (drop_bit 4 (b::byte)) = unat b div 16"
  by (simp add: unat_drop_bit_eq drop_bit_eq_div unat_div)

lemma and15: "unat ((b::byte) AND 0xF) = unat b mod 16"
proof -
  have "b AND 0xF = take_bit 4 b" 
    by (simp add: take_bit_eq_mask mask_eq_exp_minus_1)
  then show ?thesis by (simp add: unsigned_take_bit_eq take_bit_eq_mod unat_mod)
qed

lemma loop_tc_le:
  "k \<le> length p \<Longrightarrow>
     twosComplement_loop p k c = rev (tc_le (rev (take k p)) c) @ drop k p"
proof (induction k arbitrary: p c)
  case 0
  show ?case by simp
next
  case (Suc i)
  then have i: "i < length p" by simp
  have tk: "rev (take (Suc i) p) = p ! i # rev (take i p)"
    using i by (simp add: take_Suc_conv_app_nth)
  have dr: "\<And>x. drop i (p[i := x]) = x # drop (Suc i) p"
    using i by (simp add: upd_conv_take_nth_drop)
  show ?case
  proof (cases c)
    case True
    have "twosComplement_loop p (Suc i) c =
        twosComplement_loop (p[i := NOT (p ! i) + 1]) i (NOT (p ! i) = 0xff)"
      using True i by (simp add: Let_def)
    also have "\<dots> = rev (tc_le (rev (take i p)) (NOT (p ! i) = 0xff)) @ (NOT (p ! i) + 1) # drop (Suc i) p"
      using Suc.IH[of "p[i := NOT (p ! i) + 1]"] i by (simp add: dr)
    finally show ?thesis using True by (simp add: tk)
  next
    case False
    have "twosComplement_loop p (Suc i) c = twosComplement_loop (p[i := NOT (p ! i)]) i False"
      using False i by (simp add: Let_def)
    also have "\<dots> = rev (tc_le (rev (take i p)) False) @ NOT (p ! i) # drop (Suc i) p"
      using Suc.IH[of "p[i := NOT (p ! i)]"] i by (simp add: dr)
    finally show ?thesis using False by (simp add: tk)
  qed
qed

lemma not_byte: "NOT (b::byte) = 255 - b"
  by (simp add: not_eq_complement)

lemma unat_not_byte: "unat (NOT (b::byte)) = 255 - unat b"
proof -
  have "b \<le> 255" using unat_byte_less[of b] by (simp add: word_le_nat_alt)
  then show ?thesis by (simp add: not_byte unat_sub)
qed

lemma not_ff: "(NOT (b::byte) = 0xff) = (b = 0)"
proof -
  have "(NOT b = 0xff) = (unat (NOT b) = unat (0xff::byte))"
    by (simp only: word_unat_eq_iff)
  also have "\<dots> = (unat b = 0)" using unat_byte_less[of b] by (simp add: unat_not_byte) arith
  finally show ?thesis by (simp add: unat_0_iff)
qed

lemma unat_not_plus1: "b \<noteq> 0 \<Longrightarrow> unat (NOT (b::byte) + 1) = 256 - unat b"
proof -
  assume "b \<noteq> 0"
  then have "0 < unat b" by (simp add: unat_gt_0)
  then show ?thesis using unat_byte_less[of b]
    by (simp add: unat_plus_if' unat_not_byte)
qed

lemma uint_not_byte: "uint (NOT (b::byte)) = 255 - uint b"
proof -
  have "uint (NOT b) = int (unat (NOT b))" by simp
  also have "\<dots> = int (255 - unat b)" by (simp only: unat_not_byte)
  also have "\<dots> = 255 - int (unat b)" using unat_byte_less[of b] by simp
  finally show ?thesis by simp
qed

lemma uint_not_plus1: "b \<noteq> 0 \<Longrightarrow> uint (NOT (b::byte) + 1) = 256 - uint b"
proof -
  assume b: "b \<noteq> 0"
  have "uint (NOT b + 1) = int (unat (NOT b + 1))" by simp
  also have "\<dots> = int (256 - unat b)" by (simp only: unat_not_plus1[OF b])
  also have "\<dots> = 256 - int (unat b)" using unat_byte_less[of b] by simp
  finally show ?thesis by simp
qed

lemma le_nat_less: "le_nat bs < 256 ^ length bs"
proof (induction bs)
  case Nil show ?case by simp
next
  case (Cons b bs)
  with unat_byte_less[of b] show ?case by simp
qed

lemma length_tc_le: "length (tc_le bs c) = length bs"
  by (induction bs arbitrary: c) auto

lemma le_nat_tc_le:
  "int (le_nat (tc_le bs c)) =
     (if c then (256 ^ length bs - int (le_nat bs)) mod 256 ^ length bs
      else 256 ^ length bs - 1 - int (le_nat bs))"
proof (induction bs arbitrary: c)
  case Nil
  show ?case by simp
next
  case (Cons b bs)
  define N :: int where "N = 256 ^ length bs"
  define L :: int where "L = int (le_nat bs)"
  define u :: int where "u = uint b"
  have L: "0 \<le> L" "L < N"
    using le_nat_less[of bs] unfolding N_def L_def
    by (simp, metis of_nat_less_iff of_nat_numeral of_nat_power)
  have B: "u < 256" "0 \<le> u" using uint_lt2p[of b] by (simp_all add: u_def)
  have lhs: "int (le_nat (tc_le (b # bs) c)) =
      (if c then (if b = 0 then 256 * ((N - L) mod N) else (256 - u) + 256 * (N - 1 - L))
       else (255 - u) + 256 * (N - 1 - L))"
    using Cons.IH[of True] Cons.IH[of False] unat_byte_less[of b]
    by (simp add: not_ff uint_not_plus1 uint_not_byte N_def L_def u_def)
  have rhs: "int (le_nat (b # bs)) = u + 256 * L" "(256::int) ^ length (b # bs) = 256 * N"
    by (simp_all add: N_def L_def u_def)
  show ?case
  proof (cases c)
    case False
    then show ?thesis unfolding lhs rhs by (simp add: algebra_simps)
  next
    case True
    show ?thesis
    proof (cases "b = 0")
      case True
      then have "u = 0" by (simp add: u_def)
      have "256 * ((N - L) mod N) = (256 * (N - L)) mod (256 * N)"
        by (simp add: mult_mod_right)
      then show ?thesis unfolding lhs rhs using \<open>c\<close> True \<open>u = 0\<close> by (simp add: algebra_simps)
    next
      case False
      then have pos: "0 < u" using B(2) by (simp add: order_less_le uint_0_iff u_def)
      have "0 \<le> 256 * N - (u + 256 * L)" using L B by linarith
      moreover have "256 * N - (u + 256 * L) < 256 * N" using L pos by linarith
      ultimately have "(256 * N - (u + 256 * L)) mod (256 * N) = 256 * N - (u + 256 * L)"
        by (rule mod_pos_pos_trivial)
      then show ?thesis unfolding lhs rhs using \<open>c\<close> False by simp
    qed
  qed
qed

subsection \<open>Hexadecimal digits\<close>

lemma be_nat_snoc: "be_nat (bs @ [b]) = 256 * be_nat bs + unat b"
  by (simp add: be_nat_def)

lemma be_nat_less: "be_nat bs < 256 ^ length bs"
  using le_nat_less[of "rev bs"] by (simp add: be_nat_def)

lemma Sprintf_x_snoc:
  "Sprintf_x (bs @ [b]) = Sprintf_x bs @ [ldigits ! (unat b div 16), ldigits ! (unat b mod 16)]"
  by (simp add: Sprintf_x_def drop4 and15)

lemma nibbles:
  fixes u v :: nat
  assumes u: "u < 256"
  shows "(256 * v + u) mod 16 = u mod 16"
    and "(256 * v + u) div 16 mod 16 = u div 16"
    and "(256 * v + u) div 16 div 16 = v"
proof -
  have e: "256 * v + u = 16 * (16 * v) + u" by simp
  then show "(256 * v + u) mod 16 = u mod 16" by (simp only: mod_mult_self4)
  have d: "(256 * v + u) div 16 = 16 * v + u div 16" using e by (simp only: div_mult_self4)
  have l: "u div 16 < 16" using u by simp
  show "(256 * v + u) div 16 mod 16 = u div 16" using d l by simp
  show "(256 * v + u) div 16 div 16 = v" using d l by simp
qed

lemma Sprintf_x_fixed: "Sprintf_x bs = hex_fixed (2 * length bs) (be_nat bs)"
proof (induction bs rule: rev_induct)
  case Nil
  show ?case by (simp add: Sprintf_x_def be_nat_def)
next
  case (snoc b bs)
  have u: "unat b < 256" by (rule unat_byte_less)
  show ?case
    using snoc.IH nibbles[OF u, of "be_nat bs"] by (simp add: Sprintf_x_snoc be_nat_snoc)
qed

lemma ldigits_nonzero: "0 < d \<Longrightarrow> d < 16 \<Longrightarrow> ldigits ! d \<noteq> CHR ''0''"
proof -
  assume "0 < d" "d < 16"
  then have "d \<in> {1,2,3,4,5,6,7,8,9,10,11,12,13,14,15}" by simp arith
  then show ?thesis by (auto simp add: ldigits_def)
qed

lemma hex_fixed_zero: "hex_fixed k 0 = replicate k (CHR ''0'')"
  by (induction k) (simp_all add: ldigits_def replicate_append_same)

lemma hex_nat_zero: "hex_nat 0 = []"
  by (simp add: hex_nat.simps)

lemma hex_nat_pos: "0 < n \<Longrightarrow> hex_nat n = hex_nat (n div 16) @ [ldigits ! (n mod 16)]"
  by (subst hex_nat.simps) simp

lemma dropWhile_zeros:
  "d \<noteq> CHR ''0'' \<Longrightarrow>
     dropWhile (\<lambda>c. c = CHR ''0'') (replicate k (CHR ''0'') @ [d]) = [d]"
  by (induction k) simp_all

lemma dropWhile_hex_fixed:
  "n < 16 ^ k \<Longrightarrow> dropWhile (\<lambda>c. c = CHR ''0'') (hex_fixed k n) = hex_nat n"
proof (induction k arbitrary: n)
  case 0
  then show ?case by (simp add: hex_nat_zero)
next
  case (Suc k)
  let ?P = "\<lambda>c. c = CHR ''0''"
  let ?d = "ldigits ! (n mod 16)"
  have fx: "hex_fixed (Suc k) n = hex_fixed k (n div 16) @ [?d]" by simp
  show ?case
  proof (cases "n = 0")
    case True
    have "hex_fixed (Suc k) 0 = replicate (Suc k) (CHR ''0'')" by (rule hex_fixed_zero)
    then show ?thesis unfolding True by (simp add: hex_nat_zero)
  next
    case False
    then have n: "0 < n" by simp
    have hn: "hex_nat n = hex_nat (n div 16) @ [?d]" by (rule hex_nat_pos[OF n])
    have d: "n div 16 < 16 ^ k" using Suc.prems by (simp add: less_mult_imp_div_less)
    show ?thesis
    proof (cases "n div 16 = 0")
      case True
      then have "n < 16" by (simp add: div_eq_0_iff)
      then have "n mod 16 = n" by simp
      then have nz: "?d \<noteq> CHR ''0''" using n \<open>n < 16\<close> ldigits_nonzero[of n] by simp
      have "dropWhile ?P (hex_fixed (Suc k) n) = dropWhile ?P (replicate k (CHR ''0'') @ [?d])"
        unfolding fx True hex_fixed_zero ..
      also have "\<dots> = [?d]" by (rule dropWhile_zeros[OF nz])
      also have "\<dots> = hex_nat n" unfolding hn True hex_nat_zero by simp
      finally show ?thesis .
    next
      case False
      then have pos: "0 < n div 16" by simp
      have "hex_nat (n div 16) \<noteq> []" by (subst hex_nat_pos[OF pos]) simp
      then have ne: "dropWhile ?P (hex_fixed k (n div 16)) \<noteq> []"
        unfolding Suc.IH[OF d] .
      then obtain x where x: "x \<in> set (hex_fixed k (n div 16))" "\<not> ?P x"
        unfolding dropWhile_eq_Nil_conv by blast
      have "dropWhile ?P (hex_fixed (Suc k) n) = dropWhile ?P (hex_fixed k (n div 16)) @ [?d]"
        unfolding fx using x by (rule dropWhile_append1)
      also have "\<dots> = hex_nat (n div 16) @ [?d]" unfolding Suc.IH[OF d] ..
      finally show ?thesis unfolding hn .
    qed
  qed
qed

lemma TrimLeft_zero: "TrimLeft s ''0'' = dropWhile (\<lambda>c. c = CHR ''0'') s"
  by (simp add: TrimLeft_def)

lemma render: "TrimLeft (Sprintf_x bs) ''0'' = hex_nat (be_nat bs)"
proof -
  have "be_nat bs < 16 ^ (2 * length bs)"
    using be_nat_less[of bs] by (simp add: power_mult)
  then show ?thesis by (simp add: TrimLeft_zero Sprintf_x_fixed dropWhile_hex_fixed)
qed

subsection \<open>Sign and magnitude\<close>

lemma le_nat_append: "le_nat (xs @ ys) = le_nat xs + 256 ^ length xs * le_nat ys"
  by (induction xs) (simp_all add: algebra_simps)

lemma be_nat_Cons: "be_nat (b # bs) = unat b * 256 ^ length bs + be_nat bs"
  by (simp add: be_nat_def le_nat_append)

lemma negative_iff:
  assumes "hash \<noteq> []"
  shows "(hash ! 0 AND 0x80 = 0x80) = (256 ^ length hash \<le> 2 * be_nat hash)"
proof -
  from assms obtain b bs where h: "hash = b # bs" by (cases hash) auto
  define N :: nat where "N = 256 ^ length bs"
  define v where "v = be_nat bs"
  define u where "u = unat b"
  have v: "v < N" using be_nat_less[of bs] by (simp add: v_def N_def)
  define w where "w = u * N"
  have "(256 * N \<le> 2 * (w + v)) = (128 \<le> u)"
  proof (cases "128 \<le> u")
    case True
    then have "128 * N \<le> w" unfolding w_def by (rule mult_le_mono1)
    then have "256 * N \<le> 2 * (w + v)" by simp
    then show ?thesis using True by simp
  next
    case False
    then have "u \<le> 127" by simp
    then have "w \<le> 127 * N" unfolding w_def by (rule mult_le_mono1)
    then have "\<not> 256 * N \<le> 2 * (w + v)" using v by simp
    then show ?thesis using False by simp
  qed
  then show ?thesis
    by (simp add: h be_nat_Cons high_bit N_def v_def u_def w_def)
qed

lemma twosComplement_tc_le: "twosComplement p = rev (tc_le (rev p) True)"
  using loop_tc_le[of "length p" p True] by (simp add: twosComplement_def)

lemma length_twosComplement: "length (twosComplement p) = length p"
  by (simp add: twosComplement_tc_le length_tc_le)

lemma be_nat_twosComplement:
  "int (be_nat (twosComplement p)) = (256 ^ length p - int (be_nat p)) mod 256 ^ length p"
  using le_nat_tc_le[of "rev p" True] by (simp add: twosComplement_tc_le be_nat_def)

lemma negated_magnitude:
  assumes "256 ^ length p \<le> 2 * be_nat p"
  shows "be_nat (twosComplement p) = nat (- be_sint p)"
proof -
  define N :: int where "N = 256 ^ length p"
  define v :: int where "v = int (be_nat p)"
  have "int (256 ^ length p) \<le> int (2 * be_nat p)" using assms by (simp only: of_nat_le_iff)
  then have 1: "N \<le> 2 * v" by (simp add: N_def v_def)
  have "int (be_nat p) < int (256 ^ length p)" using be_nat_less[of p] by (simp only: of_nat_less_iff)
  then have 2: "v < N" by (simp add: N_def v_def)
  have 3: "0 \<le> v" by (simp add: v_def)
  have "0 \<le> N - v" "N - v < N" using 1 2 3 by linarith+
  then have "(N - v) mod N = N - v" by (rule mod_pos_pos_trivial)
  then have "int (be_nat (twosComplement p)) = N - v"
    by (simp add: be_nat_twosComplement N_def v_def)
  moreover have "be_sint p = v - N" using assms by (simp add: be_sint_def N_def v_def not_less)
  ultimately show ?thesis by simp
qed

lemma digest_render:
  assumes "hash \<noteq> []"
  shows "(let negative = (hash ! 0 AND 0x80 = 0x80);
              h = (if negative then twosComplement hash else hash);
              res = TrimLeft (Sprintf_x h) ''0''
          in if negative then ''-'' @ res else res) = signed_hex (be_sint hash)"
proof (cases "256 ^ length hash \<le> 2 * be_nat hash")
  case True
  have pos: "0 < be_nat hash" using True by (cases "be_nat hash = 0") auto
  have "be_sint hash < 0" using True be_nat_less[of hash] by (simp add: be_sint_def not_less)
  then show ?thesis using True assms
    by (simp add: negative_iff render negated_magnitude signed_hex_def)
next
  case False
  then have "be_sint hash = int (be_nat hash)" by (simp add: be_sint_def)
  then show ?thesis using False assms
    by (simp add: negative_iff render signed_hex_def)
qed

text \<open>
  Claim C1.  For every server id, shared secret and public key, \<open>authDigest\<close> is the
  signed-hex rendering of the SHA-1 digest of their concatenation: the 20-byte digest is
  read as a signed big-endian two's-complement number; when the high bit of its first
  byte is set the bytes are negated (inverted, plus one, the carry running up from the
  last byte) and the output starts with a minus sign; the magnitude is written in
  lowercase hexadecimal without leading zero digits, so that an all-zero digest is the
  empty string.
\<close>

theorem authDigest_signed_hex:
  assumes hash: "hash = sha1_Sum (bytes_of_string serverID @ sharedSecret @ publicKey)"
    and len: "length hash = 20"
  shows "authDigest sha1_Sum serverID sharedSecret publicKey = signed_hex (be_sint hash)
       \<and> ((hash ! 0 AND 0x80 = 0x80) = (be_sint hash < 0))
       \<and> (be_sint hash < 0 \<longrightarrow> int (be_nat (twosComplement hash)) = - be_sint hash)
       \<and> (be_nat hash = 0 \<longrightarrow> authDigest sha1_Sum serverID sharedSecret publicKey = [])"
proof -
  have ne: "hash \<noteq> []" using len by auto
  have 1: "authDigest sha1_Sum serverID sharedSecret publicKey = signed_hex (be_sint hash)"
    using digest_render[OF ne] by (simp only: authDigest_def hash [symmetric] Let_def)
  have lt: "be_nat hash < 256 ^ length hash" by (rule be_nat_less)
  have 2: "(hash ! 0 AND 0x80 = 0x80) = (be_sint hash < 0)"
  proof (cases "256 ^ length hash \<le> 2 * be_nat hash")
    case True
    then have "be_sint hash < 0" using lt by (simp add: be_sint_def not_less)
    then show ?thesis using True by (simp add: negative_iff[OF ne])
  next
    case False
    then have "be_sint hash = int (be_nat hash)" by (simp add: be_sint_def)
    then show ?thesis using False by (simp add: negative_iff[OF ne])
  qed
  have 3: "be_sint hash < 0 \<longrightarrow> int (be_nat (twosComplement hash)) = - be_sint hash"
  proof
    assume neg: "be_sint hash < 0"
    have "256 ^ length hash \<le> 2 * be_nat hash"
    proof (rule ccontr)
      assume "\<not> 256 ^ length hash \<le> 2 * be_nat hash"
      then have "be_sint hash = int (be_nat hash)" by (simp add: be_sint_def)
      with neg show False by simp
    qed
    from negated_magnitude[OF this] neg show "int (be_nat (twosComplement hash)) = - be_sint hash"
      by simp
  qed
  have 4: "be_nat hash = 0 \<longrightarrow> authDigest sha1_Sum serverID sharedSecret publicKey = []"
  proof
    assume z: "be_nat hash = 0"
    then have "be_sint hash = 0" by (simp add: be_sint_def)
    then show "authDigest sha1_Sum serverID sharedSecret publicKey = []"
      unfolding 1 by (simp add: signed_hex_def hex_nat_zero)
  qed
  from 1 2 3 4 show ?thesis by blast
qed

theorem authDigest_signed_hex_witness:
  "length sha1_jeb = 20 \<and>
   authDigest (\<lambda>_. sha1_jeb) ''jeb_'' [] [] = ''-7c9d5b0044c130109a5d7b5fb5c317c02b4e28c1'' \<and>
   signed_hex (be_sint sha1_jeb) = ''-7c9d5b0044c130109a5d7b5fb5c317c02b4e28c1''"
proof -
  have len: "length sha1_jeb = 20"
    by (simp add: sha1_jeb_def)
  have run: "authDigest (\<lambda>_. sha1_jeb) ''jeb_'' [] [] = ''-7c9d5b0044c130109a5d7b5fb5c317c02b4e28c1''"
    by code_simp
  have "authDigest (\<lambda>_. sha1_jeb) ''jeb_'' [] [] = signed_hex (be_sint sha1_jeb)"
    using authDigest_signed_hex[of sha1_jeb "\<lambda>_. sha1_jeb" "''jeb_''" "[]" "[]", OF refl len]
    by (rule conjunct1)
  with run have "signed_hex (be_sint sha1_jeb) = ''-7c9d5b0044c130109a5d7b5fb5c317c02b4e28c1''"
    by (simp only:)
  with len run show ?thesis by (intro conjI)
qed

end
